theory Spec2Isabelle
  imports Complex_Main "HOL-Library.Word"
begin

unbundle bit_operations_syntax

section \<open>Exceptions\<close>

text \<open>
  The exceptions the two translation units raise, as values. A function that returns
  nothing yields \<open>None\<close> on a normal return and \<open>Some e\<close> when it leaves with the
  exception \<open>e\<close>; a function that returns a value yields \<open>Inr v\<close> or \<open>Inl e\<close>.
  The object is returned beside the outcome in both cases, since an exception leaves
  every member written so far as it is. \<open>assertion_failure\<close> is the abort of a failed
  \<^verbatim>\<open>assert\<close>, \<open>undefined_behaviour\<close> a conversion the language leaves undefined.
\<close>

datatype error =
    invalid_argument
  | range_error
  | TimeoutException
  | assertion_failure
  | undefined_behaviour

section \<open>The protocol driver (HX711.cpp)\<close>

subsection \<open>Types and constants of the driver's header\<close>

type_synonym uint8 = "8 word"
type_synonym int32 = "32 word"
type_synonym HX_VALUE = int32

datatype Channel = A | B

datatype Gain = GAIN_128 | GAIN_32 | GAIN_64

datatype Format = MSB | LSB

datatype PinWatchState = NONE | NORMAL | PAUSE | END

text \<open>
  Modelled from the spec: the constants \<^verbatim>\<open>HX_MIN_VALUE\<close> and \<^verbatim>\<open>HX_MAX_VALUE\<close> of
  include/HX711.h. The specification gives the raw value the range
  \<open>[-2^23, 2^23-1]\<close> and calls its two ends the saturated values.
\<close>

definition HX_MIN_VALUE :: HX_VALUE where
  "HX_MIN_VALUE = - 0x800000"

definition HX_MAX_VALUE :: HX_VALUE where
  "HX_MAX_VALUE = 0x7FFFFF"

text \<open>
  Modelled from the spec: the constant \<^verbatim>\<open>_BYTES_PER_CONVERSION_PERIOD\<close> of
  include/HX711.h. One full sample is exactly three bytes.
\<close>

definition BYTES_PER_CONVERSION_PERIOD :: nat where
  "BYTES_PER_CONVERSION_PERIOD = 3"

text \<open>
  Modelled from the spec: the table \<^verbatim>\<open>PULSES\<close> of include/HX711.h, indexed by the gain.
  Gain 128 and gain 32 require 25 pulses in total, gain 64 requires 27.
\<close>

fun PULSES :: "Gain \<Rightarrow> uint8" where
  "PULSES GAIN_128 = 25"
| "PULSES GAIN_32 = 25"
| "PULSES GAIN_64 = 27"

subsection \<open>The two GPIO lines\<close>

text \<open>
  The GPIO library is outside the repository. Its two calls the driver uses on the bus
  are modelled by their effect on a record of the lines: \<open>dout\<close> gives what the
  \<open>k\<close>-th read of the data line returns (0 for low, 1 for high, a negative error code
  otherwise), \<open>nreads\<close> counts the reads made, and \<open>trace\<close> lists every access in
  order, the latest last.
\<close>

datatype gpio_event = ClockWrite int | DataRead int

record gpio =
  dout :: "nat \<Rightarrow> int"
  nreads :: nat
  trace :: "gpio_event list"

text \<open>
  A clock pulse is the clock line driven high and then low again. \<open>pulses\<close> counts the
  pulses completed in a trace: the writes of the level 0 that find the clock line
  high, the line being low before the first access. \<open>clock_pulse\<close> is the trace of one
  pulse during which the data line is sampled, and \<open>clocked k\<close> gives the lines after
  \<open>k\<close> such pulses in a row.
\<close>

fun pulses_from :: "bool \<Rightarrow> gpio_event list \<Rightarrow> nat" where
  "pulses_from high [] = 0"
| "pulses_from high (ClockWrite level # tr) =
     (if high \<and> level = 0 then Suc (pulses_from False tr)
      else pulses_from (level = 1) tr)"
| "pulses_from high (DataRead level # tr) = pulses_from high tr"

definition pulses :: "gpio_event list \<Rightarrow> nat" where
  "pulses tr = pulses_from False tr"

definition clock_pulse :: "int \<Rightarrow> gpio_event list" where
  "clock_pulse level = [ClockWrite 1, DataRead level, ClockWrite 0]"

definition clocked :: "nat \<Rightarrow> gpio \<Rightarrow> gpio" where
  "clocked k lines =
     lines\<lparr>nreads := nreads lines + k,
           trace := trace lines @
             concat (map (\<lambda>i. clock_pulse (dout lines i))
                       [nreads lines ..< nreads lines + k])\<rparr>"

subsection \<open>The driver object\<close>

text \<open>
  The members of the class, with the lines it owns as \<open>hw\<close>. The four durations
  (maximum wait and the three sleeps of the watcher) only set how long a thread waits
  and are left out. \<open>published\<close> is a ghost member: the values for which the watcher
  has called \<^verbatim>\<open>notify_all\<close>, in order.
\<close>

record HX711 =
  gpioHandle :: int
  dataPin :: int
  clockPin :: int
  lastVal :: HX_VALUE
  watchState :: PinWatchState
  channel :: Channel
  gain :: Gain
  bitFormat :: Format
  byteFormat :: Format
  hw :: gpio
  published :: "HX_VALUE list"

definition lgGpioWrite :: "int \<Rightarrow> HX711 \<Rightarrow> HX711" where
  "lgGpioWrite level s = s\<lparr>hw := (hw s)\<lparr>trace := trace (hw s) @ [ClockWrite level]\<rparr>\<rparr>"

definition lgGpioRead :: "HX711 \<Rightarrow> int \<times> HX711" where
  "lgGpioRead s =
     (let level = dout (hw s) (nreads (hw s))
      in (level, s\<lparr>hw := (hw s)\<lparr>nreads := Suc (nreads (hw s)),
                                  trace := trace (hw s) @ [DataRead level]\<rparr>\<rparr>))"

subsection \<open>Decoding and saturation\<close>

definition convertFromTwosComplement :: "int32 \<Rightarrow> int32" where
  "convertFromTwosComplement val = - (val AND 0x800000) + (val AND 0x7fffff)"

definition isSaturated :: "HX_VALUE \<Rightarrow> bool" where
  "isSaturated v = (v = HX_MIN_VALUE \<or> v = HX_MAX_VALUE)"

text \<open>
  The 24-bit two's-complement encoding of an integer, as the field the chip shifts out:
  the integer modulo \<open>2^24\<close>, held in the low 24 bits of a 32-bit word.
\<close>

definition encode24 :: "int \<Rightarrow> int32" where
  "encode24 n = word_of_int (n mod 2 ^ 24)"

subsection \<open>Reading bits, bytes and a sample\<close>

definition readBit :: "HX711 \<Rightarrow> bool \<times> HX711" where
  "readBit s =
     (let s1 = lgGpioWrite 1 s;
          (level, s2) = lgGpioRead s1;
          bit = (level = 1);
          s3 = lgGpioWrite 0 s2
      in (bit, s3))"

text \<open>The loop of \<^verbatim>\<open>_readByte\<close>; the first argument counts the iterations left.\<close>

fun readByte_loop :: "nat \<Rightarrow> uint8 \<Rightarrow> HX711 \<Rightarrow> uint8 \<times> HX711" where
  "readByte_loop 0 val s = (val, s)"
| "readByte_loop (Suc k) val s =
     (let (b, s') = readBit s;
          val' = (if bitFormat s = MSB
                  then push_bit 1 val OR of_bool b
                  else drop_bit 1 val OR (of_bool b * 0x80))
      in readByte_loop k val' s')"

definition readByte :: "HX711 \<Rightarrow> uint8 \<times> HX711" where
  "readByte s = readByte_loop 8 0 s"

text \<open>The loop that fills \<^verbatim>\<open>raw\<close>, and the loop of the trailing pulses.\<close>

fun readBytes_loop :: "nat \<Rightarrow> HX711 \<Rightarrow> uint8 list \<times> HX711" where
  "readBytes_loop 0 s = ([], s)"
| "readBytes_loop (Suc k) s =
     (let (b, s') = readByte s;
          (bs, s'') = readBytes_loop k s'
      in (b # bs, s''))"

fun pulse_loop :: "nat \<Rightarrow> HX711 \<Rightarrow> HX711" where
  "pulse_loop 0 s = s"
| "pulse_loop (Suc k) s = pulse_loop k (snd (readBit s))"

text \<open>
  \<^verbatim>\<open>_readRawBytes\<close>. The flag says whether the caller passed an array
  (\<^verbatim>\<open>bytes != nullptr\<close>); the result holds the bytes copied into it. The subtraction
  that gives \<^verbatim>\<open>pulsesNeeded\<close> is stored in a \<^verbatim>\<open>std::uint8_t\<close>, hence modulo 256. The body
  has no \<^verbatim>\<open>throw\<close>, so the model always returns.
\<close>

definition readRawBytes :: "bool \<Rightarrow> HX711 \<Rightarrow> uint8 list option \<times> HX711" where
  "readRawBytes wantBytes s =
     (let (raw, s1) = readBytes_loop BYTES_PER_CONVERSION_PERIOD s;
          pulsesNeeded = PULSES (gain s1) - 8 * of_nat BYTES_PER_CONVERSION_PERIOD;
          s2 = pulse_loop (unat pulsesNeeded) s1
      in if \<not> wantBytes then (None, s2)
         else
           let raw' = (if byteFormat s2 = LSB
                       then raw[0 := raw ! (BYTES_PER_CONVERSION_PERIOD - 1),
                                BYTES_PER_CONVERSION_PERIOD - 1 := raw ! 0]
                       else raw)
           in (Some raw', s2))"

text \<open>
  \<^verbatim>\<open>_readInt\<close>. Called with an array, \<^verbatim>\<open>_readRawBytes\<close> fills its three bytes
  (lemma \<open>readRawBytes_bytes\<close> below), so the last case is never taken.
\<close>

definition readInt :: "HX711 \<Rightarrow> HX_VALUE \<times> HX711" where
  "readInt s =
     (case readRawBytes True s of
        (Some [b0, b1, b2], s') \<Rightarrow>
          (let twosComp = push_bit 24 0 OR push_bit 16 (ucast b0) OR
                          push_bit 8 (ucast b1) OR ucast b2
           in (convertFromTwosComplement twosComp, s'))
      | (_, s') \<Rightarrow> (0, s'))"

definition isReady :: "HX711 \<Rightarrow> bool \<times> HX711" where
  "isReady s = (let (level, s') = lgGpioRead s in (level = 0, s'))"

subsection \<open>Construction, the watcher and the bounded-wait read\<close>

definition HX711_init :: "int \<Rightarrow> int \<Rightarrow> gpio \<Rightarrow> HX711" where
  "HX711_init dataPin' clockPin' lines =
     \<lparr> gpioHandle = - 1,
       dataPin = dataPin',
       clockPin = clockPin',
       lastVal = HX_MAX_VALUE,
       watchState = NONE,
       channel = A,
       gain = GAIN_128,
       bitFormat = MSB,
       byteFormat = MSB,
       hw = lines,
       published = [] \<rparr>"

text \<open>
  One pass through the body of the loop of \<^verbatim>\<open>_watchPin\<close>: \<open>None\<close> when the loop is
  left by \<^verbatim>\<open>break\<close>, otherwise the object at the next iteration. The sleeps and the
  locks do not change the object.
\<close>

definition watchPin_iter :: "HX711 \<Rightarrow> HX711 option" where
  "watchPin_iter s =
     (if watchState s = END then None
      else if watchState s = PAUSE then Some s
      else
        let (ready, s1) = isReady s
        in if \<not> ready then Some s1
           else
             let (v, s2) = readInt s1
             in if isSaturated v then Some s2
                else Some (s2\<lparr>lastVal := v, published := published s2 @ [v]\<rparr>))"

text \<open>The loop itself, cut after the given number of iterations.\<close>

fun watchPin :: "nat \<Rightarrow> HX711 \<Rightarrow> HX711" where
  "watchPin 0 s = s"
| "watchPin (Suc n) s =
     (case watchPin_iter s of None \<Rightarrow> s | Some s' \<Rightarrow> watchPin n s')"

text \<open>
  \<^verbatim>\<open>getValue\<close>. What \<^verbatim>\<open>wait_for\<close> returns is decided by the other threads and the
  clock, so it is an argument.
\<close>

datatype cv_status = no_timeout | timeout

definition getValue :: "cv_status \<Rightarrow> HX711 \<Rightarrow> error + HX_VALUE" where
  "getValue woken s =
     (if woken = timeout then Inl TimeoutException else Inr (lastVal s))"

definition getChannel :: "HX711 \<Rightarrow> Channel" where
  "getChannel s = channel s"

definition getGain :: "HX711 \<Rightarrow> Gain" where
  "getGain s = gain s"

subsection \<open>Configuration\<close>

text \<open>
  \<^verbatim>\<open>setConfig\<close>, with the call it makes inside the \<^verbatim>\<open>try\<close> block as the argument
  \<open>transaction\<close>: the handler is written for a callee that can leave with a
  \<^verbatim>\<open>TimeoutException\<close>, and it lets every other exception pass with the staged pair in
  place.
\<close>

definition setConfig_with ::
  "(HX711 \<Rightarrow> error option \<times> HX711) \<Rightarrow> Channel \<Rightarrow> Gain \<Rightarrow> HX711 \<Rightarrow> error option \<times> HX711" where
  "setConfig_with transaction c g s =
     (if c = A \<and> g = GAIN_32 then (Some invalid_argument, s)
      else if c = B \<and> g \<noteq> GAIN_32 then (Some invalid_argument, s)
      else
        let backupChannel = channel s;
            backupGain = gain s;
            (r, s') = transaction (s\<lparr>channel := c, gain := g\<rparr>)
        in if r = Some TimeoutException
           then (Some TimeoutException, s'\<lparr>channel := backupChannel, gain := backupGain\<rparr>)
           else (r, s'))"

text \<open>The call as the driver makes it: \<^verbatim>\<open>this->_readRawBytes()\<close>, with no array.\<close>

definition readRawBytes_call :: "HX711 \<Rightarrow> error option \<times> HX711" where
  "readRawBytes_call s = (None, snd (readRawBytes False s))"

definition setConfig :: "Channel \<Rightarrow> Gain \<Rightarrow> HX711 \<Rightarrow> error option \<times> HX711" where
  "setConfig c g s = setConfig_with readRawBytes_call c g s"

text \<open>
  The three pairings the specification lists as valid: channel A with gain 128 or 64,
  channel B with gain 32.
\<close>

definition valid_pair :: "Channel \<Rightarrow> Gain \<Rightarrow> bool" where
  "valid_pair c g =
     ((c = A \<and> g = GAIN_128) \<or> (c = A \<and> g = GAIN_64) \<or> (c = B \<and> g = GAIN_32))"

subsection \<open>Example lines\<close>

text \<open>
  Two data lines for concrete runs: one that stays low (the chip is ready and shifts
  out the sample 0), and one that is low for the readiness test and the first data bit
  and high afterwards, which is the sample \<open>0x7FFFFF\<close>.
\<close>

definition lines_low :: gpio where
  "lines_low = \<lparr> dout = (\<lambda>k. 0), nreads = 0, trace = [] \<rparr>"

definition lines_max :: gpio where
  "lines_max = \<lparr> dout = (\<lambda>k. if 2 \<le> k then 1 else 0), nreads = 0, trace = [] \<rparr>"

section \<open>The scale (AbstractScale.cpp)\<close>

subsection \<open>Types of the scale's headers\<close>

text \<open>
  \<^verbatim>\<open>ReadType\<close> has the two enumerators the \<^verbatim>\<open>switch\<close> of \<^verbatim>\<open>read\<close> names;
  \<open>ReadType_unknown\<close> stands for every other value of the enumeration type, which the
  \<^verbatim>\<open>default\<close> label receives. \<^verbatim>\<open>Value\<close> is an integer type and is modelled by \<open>int\<close>,
  a \<^verbatim>\<open>double\<close> by an exact real number or the mark \<open>Inf_or_NaN\<close> of a division by
  zero: rounding errors and the bounds of both types are not modelled.
\<close>

datatype ReadType = Median | Average | ReadType_unknown

type_synonym Value = int

datatype double = Num real | Inf_or_NaN

text \<open>
  The members of the class. \<^verbatim>\<open>getValues\<close> is pure virtual, so the object also holds
  the raw-value source behind it: \<open>feed\<close> gives the outcome of the \<open>k\<close>-th
  bounded-wait read (\<open>None\<close> when it times out) and \<open>drawn\<close> counts the reads made.
\<close>

record 'u AbstractScale =
  massUnit :: 'u
  refUnit :: Value
  offset :: Value
  feed :: "nat \<Rightarrow> Value option"
  drawn :: nat

text \<open>
  Modelled from the spec: \<^verbatim>\<open>getValues\<close>, implemented by the concrete scale outside
  these sources. It produces the requested number of raw samples, each obtained by a
  bounded-wait read that can fail with a timeout.
\<close>

fun getValues :: "nat \<Rightarrow> 'u AbstractScale \<Rightarrow> (error + Value list) \<times> 'u AbstractScale" where
  "getValues 0 s = (Inr [], s)"
| "getValues (Suc n) s =
     (case feed s (drawn s) of
        None \<Rightarrow> (Inl TimeoutException, s\<lparr>drawn := Suc (drawn s)\<rparr>)
      | Some v \<Rightarrow>
          (case getValues n (s\<lparr>drawn := Suc (drawn s)\<rparr>) of
             (Inl e, s') \<Rightarrow> (Inl e, s')
           | (Inr vs, s') \<Rightarrow> (Inr (v # vs), s')))"

text \<open>
  Modelled from the spec: \<^verbatim>\<open>Utility::median\<close> and \<^verbatim>\<open>Utility::average\<close> of
  include/Utility.h. Median: sort ascending; an odd count gives the middle element, an
  even count the mean of the two middle elements. Average: the arithmetic mean. The
  specification does not say what they do with no sample; \<^verbatim>\<open>read\<close> never passes
  none, and the value \<open>0\<close> given here is not used.
\<close>

definition median :: "Value list \<Rightarrow> real" where
  "median vals =
     (let sorted_vals = sort vals; n = length sorted_vals
      in if n = 0 then 0
         else if odd n then of_int (sorted_vals ! (n div 2))
         else (of_int (sorted_vals ! (n div 2 - 1)) + of_int (sorted_vals ! (n div 2))) / 2)"

definition average :: "Value list \<Rightarrow> real" where
  "average vals =
     (if vals = [] then 0 else of_int (sum_list vals) / of_nat (length vals))"

text \<open>
  \<^verbatim>\<open>std::round\<close> of the C++ library: the nearest integer, halfway cases away from
  zero.
\<close>

definition std_round :: "real \<Rightarrow> int" where
  "std_round x = (if 0 \<le> x then \<lfloor>x + 1 / 2\<rfloor> else \<lceil>x - 1 / 2\<rceil>)"

subsection \<open>The operations\<close>

definition AbstractScale_init ::
  "'u \<Rightarrow> Value \<Rightarrow> Value \<Rightarrow> (nat \<Rightarrow> Value option) \<Rightarrow> 'u AbstractScale" where
  "AbstractScale_init massUnit' refUnit' offset' source =
     \<lparr> massUnit = massUnit', refUnit = refUnit', offset = offset',
       feed = source, drawn = 0 \<rparr>"

definition getReferenceUnit :: "'u AbstractScale \<Rightarrow> Value" where
  "getReferenceUnit s = refUnit s"

definition setReferenceUnit :: "Value \<Rightarrow> 'u AbstractScale \<Rightarrow> error option \<times> 'u AbstractScale" where
  "setReferenceUnit refUnit' s =
     (if refUnit' = 0 then (Some invalid_argument, s)
      else (None, s\<lparr>refUnit := refUnit'\<rparr>))"

definition getOffset :: "'u AbstractScale \<Rightarrow> Value" where
  "getOffset s = offset s"

text \<open>
  \<^verbatim>\<open>normalise\<close>. The flag is the build: with \<^verbatim>\<open>NDEBUG\<close> defined the \<^verbatim>\<open>assert\<close> is
  compiled out and the division is made whatever the divisor.
\<close>

definition normalise :: "bool \<Rightarrow> 'u AbstractScale \<Rightarrow> real \<Rightarrow> error + double" where
  "normalise NDEBUG s v =
     (if \<not> NDEBUG \<and> refUnit s = 0 then Inl assertion_failure
      else if refUnit s = 0 then Inr Inf_or_NaN
      else Inr (Num ((v - of_int (offset s)) / of_int (refUnit s))))"

definition read ::
  "bool \<Rightarrow> ReadType \<Rightarrow> nat \<Rightarrow> 'u AbstractScale \<Rightarrow> (error + double) \<times> 'u AbstractScale" where
  "read NDEBUG rt samples s =
     (if samples = 0 then (Inl range_error, s)
      else
        case getValues samples s of
          (Inl e, s') \<Rightarrow> (Inl e, s')
        | (Inr vals, s') \<Rightarrow>
            (case rt of
               Median \<Rightarrow> (normalise NDEBUG s' (median vals), s')
             | Average \<Rightarrow> (normalise NDEBUG s' (average vals), s')
             | ReadType_unknown \<Rightarrow> (Inl invalid_argument, s')))"

text \<open>
  \<^verbatim>\<open>zero\<close>. There is no handler: an exception of \<^verbatim>\<open>read\<close> or of either call of
  \<^verbatim>\<open>setReferenceUnit\<close> leaves the function at once.
\<close>

definition zero ::
  "bool \<Rightarrow> ReadType \<Rightarrow> nat \<Rightarrow> 'u AbstractScale \<Rightarrow> error option \<times> 'u AbstractScale" where
  "zero NDEBUG rt samples s =
     (if samples = 0 then (Some range_error, s)
      else
        let backup = refUnit s
        in case setReferenceUnit 1 s of
             (Some e, s1) \<Rightarrow> (Some e, s1)
           | (None, s1) \<Rightarrow>
               (case read NDEBUG rt samples s1 of
                  (Inl e, s2) \<Rightarrow> (Some e, s2)
                | (Inr Inf_or_NaN, s2) \<Rightarrow> (Some undefined_behaviour, s2)
                | (Inr (Num x), s2) \<Rightarrow>
                    setReferenceUnit backup (s2\<lparr>offset := std_round x\<rparr>)))"

subsection \<open>Example scales\<close>

text \<open>
  Two scales for concrete runs, both with reference unit 100 and offset 500: the source
  of the first delivers the sample 1500 at every read, the source of the second times
  out at every read.
\<close>

definition scale_1500 :: "unit AbstractScale" where
  "scale_1500 = AbstractScale_init () 100 500 (\<lambda>k. Some 1500)"

definition scale_timeout :: "unit AbstractScale" where
  "scale_timeout = AbstractScale_init () 100 500 (\<lambda>k. None)"

section \<open>Properties of the decoder\<close>

lemma and_exp_word: "(v::'a::len word) AND 2 ^ k = (if bit v k then 2 ^ k else 0)"
  by (rule bit_word_eqI) (auto simp add: bit_simps)

lemma and_sign_bit: "(v::int32) AND 0x800000 = (if bit v 23 then 0x800000 else 0)"
  using and_exp_word [of v 23] by simp

lemma and_low_bits: "(v::int32) AND 0x7fffff = take_bit 23 v"
proof -
  have "(0x7fffff :: int32) = mask 23" by (simp add: mask_eq_exp_minus_1)
  then show ?thesis by (simp add: take_bit_eq_mask)
qed

lemma low_bits_bound:
  "0 \<le> uint (take_bit 23 (v::int32)) \<and> uint (take_bit 23 (v::int32)) < 8388608"
  using take_bit_int_less_exp [of 23 "uint v"] by (simp add: unsigned_take_bit_eq)

lemma sint_small:
  assumes "- 8388608 \<le> k" and "k < 8388608"
  shows "sint (word_of_int k :: int32) = k"
proof -
  have "sint (word_of_int k :: int32) = signed_take_bit 31 k"
    unfolding sint_sbintrunc' by simp
  also have "\<dots> = k"
    by (rule signed_take_bit_int_eq_self) (use assms in simp_all)
  finally show ?thesis .
qed

lemma sint_convert:
  "sint (convertFromTwosComplement v) =
     (if bit v 23 then - 8388608 else 0) + uint (take_bit 23 v)"
proof -
  let ?k = "(if bit v 23 then - 8388608 else 0) + uint (take_bit 23 v)"
  have "convertFromTwosComplement v = word_of_int ?k"
    by (simp add: convertFromTwosComplement_def and_sign_bit and_low_bits)
  moreover have "- 8388608 \<le> ?k" "?k < 8388608"
    using low_bits_bound [of v] by (cases "bit v 23"; simp; linarith)+
  then have "sint (word_of_int ?k :: int32) = ?k"
    by (rule sint_small)
  ultimately show ?thesis by (simp only:)
qed

lemma uint_encode24: "uint (encode24 n) = n mod 2 ^ 24"
  unfolding encode24_def by (simp add: uint_word_of_int)

lemma mod_24_negative:
  "- 8388608 \<le> n \<Longrightarrow> n < 0 \<Longrightarrow> (n::int) mod 16777216 = n + 16777216"
  by (rule int_mod_pos_eq [where q = "- 1"]) simp_all

lemma div_23_negative:
  "- 8388608 \<le> n \<Longrightarrow> n < 0 \<Longrightarrow> ((n::int) + 16777216) div 8388608 = 1"
  by (rule int_div_pos_eq [where r = "n + 8388608"]) simp_all

lemma mod_23_negative:
  "- 8388608 \<le> n \<Longrightarrow> n < 0 \<Longrightarrow> ((n::int) + 16777216) mod 8388608 = n + 8388608"
  by (rule int_mod_pos_eq [where q = 1]) simp_all

lemma encode24_sign:
  assumes "- 8388608 \<le> n" and "n < 8388608"
  shows "bit (encode24 n) 23 \<longleftrightarrow> n < 0"
proof -
  have "bit (encode24 n) 23 \<longleftrightarrow> bit (uint (encode24 n)) 23"
    by (simp add: bit_uint_iff)
  also have "\<dots> \<longleftrightarrow> odd ((n mod 16777216) div 8388608)"
    by (simp add: uint_encode24 bit_iff_odd)
  also have "\<dots> \<longleftrightarrow> n < 0"
  proof (cases "n < 0")
    case True
    with assms show ?thesis
      by (simp add: mod_24_negative div_23_negative)
  next
    case False
    with assms show ?thesis
      by (simp add: div_pos_pos_trivial)
  qed
  finally show ?thesis .
qed

lemma encode24_low:
  assumes "- 8388608 \<le> n" and "n < 8388608"
  shows "uint (take_bit 23 (encode24 n)) = (if n < 0 then n + 8388608 else n)"
proof -
  have "uint (take_bit 23 (encode24 n)) = take_bit 23 (uint (encode24 n))"
    by (simp add: unsigned_take_bit_eq)
  also have "\<dots> = (n mod 16777216) mod 8388608"
    by (simp add: uint_encode24 take_bit_eq_mod)
  also have "\<dots> = (if n < 0 then n + 8388608 else n)"
    using assms by (simp add: mod_24_negative mod_23_negative mod_pos_pos_trivial)
  finally show ?thesis .
qed

text \<open>
  C5. For every integer \<open>n\<close> with \<open>-2^23 \<le> n \<le> 2^23 - 1\<close>, decoding the 24-bit
  two's-complement encoding of \<open>n\<close> gives \<open>n\<close> back; and whatever 32-bit word the
  decoder is given, the value it returns lies between \<open>-2^23\<close> and \<open>2^23 - 1\<close>.
\<close>

theorem convertFromTwosComplement_round_trip:
  "(- (2 ^ 23) \<le> n \<and> n \<le> 2 ^ 23 - 1 \<longrightarrow>
      sint (convertFromTwosComplement (encode24 n)) = n) \<and>
   - (2 ^ 23) \<le> sint (convertFromTwosComplement v) \<and>
   sint (convertFromTwosComplement v) \<le> 2 ^ 23 - 1"
proof -
  have "sint (convertFromTwosComplement (encode24 n)) = n"
    if "- 8388608 \<le> n" and "n \<le> 8388607"
    using that by (simp add: sint_convert encode24_sign encode24_low)
  moreover have "- 8388608 \<le> sint (convertFromTwosComplement v)"
    using low_bits_bound [of v] by (cases "bit v 23"; simp add: sint_convert; linarith)
  moreover have "sint (convertFromTwosComplement v) \<le> 8388607"
    using low_bits_bound [of v] by (cases "bit v 23"; simp add: sint_convert; linarith)
  ultimately show ?thesis by simp
qed

theorem convertFromTwosComplement_round_trip_witness:
  "- (2 ^ 23) \<le> (- 5 :: int) \<and> (- 5 :: int) \<le> 2 ^ 23 - 1 \<and>
   sint (convertFromTwosComplement (encode24 (- 5))) = - 5 \<and>
   encode24 (- 5) = 0xFFFFFB \<and>
   sint (convertFromTwosComplement 0xFFFFFFFF) \<le> 2 ^ 23 - 1"
  using convertFromTwosComplement_round_trip [of "- 5" "0xFFFFFFFF"]
  by (simp add: encode24_def)

text \<open>
  C6. The saturation predicate holds for a value exactly when the value, read as a
  signed integer, is \<open>-2^23\<close> or \<open>2^23 - 1\<close>.
\<close>

theorem isSaturated_iff:
  "isSaturated v \<longleftrightarrow> sint v = - (2 ^ 23) \<or> sint v = 2 ^ 23 - 1"
proof -
  have "v = HX_MIN_VALUE \<longleftrightarrow> sint v = sint HX_MIN_VALUE"
    by (auto intro: signed_word_eqI)
  moreover have "v = HX_MAX_VALUE \<longleftrightarrow> sint v = sint HX_MAX_VALUE"
    by (auto intro: signed_word_eqI)
  moreover have "sint HX_MIN_VALUE = - 8388608"
    by (simp add: HX_MIN_VALUE_def)
  moreover have "sint HX_MAX_VALUE = 8388607"
    by (simp add: HX_MAX_VALUE_def)
  ultimately show ?thesis by (simp add: isSaturated_def)
qed

section \<open>Properties of the read transaction\<close>

subsection \<open>Counting completed pulses\<close>

lemma pulses_from_clock_pulse:
  "pulses_from high (tr @ clock_pulse level) = Suc (pulses_from high tr)"
proof (induction tr arbitrary: high)
  case Nil
  show ?case by (simp add: clock_pulse_def)
next
  case (Cons e tr)
  then show ?case by (cases e) simp_all
qed

lemma pulses_from_clock_pulses:
  "pulses_from high (tr @ concat (map (\<lambda>i. clock_pulse (d i)) is)) =
     pulses_from high tr + length is"
proof (induction "is" arbitrary: tr)
  case Nil
  show ?case by simp
next
  case (Cons i "is")
  have "pulses_from high (tr @ concat (map (\<lambda>i. clock_pulse (d i)) (i # is))) =
      pulses_from high ((tr @ clock_pulse (d i)) @ concat (map (\<lambda>i. clock_pulse (d i)) is))"
    by simp
  also have "\<dots> = pulses_from high (tr @ clock_pulse (d i)) + length is"
    by (rule Cons.IH)
  finally show ?case by (simp add: pulses_from_clock_pulse)
qed

lemma pulses_clocked: "pulses (trace (clocked k lines)) = pulses (trace lines) + k"
  by (simp add: clocked_def pulses_def pulses_from_clock_pulses)

text \<open>
  A line that is only ever driven high completes no pulse, whatever the number of writes;
  two pulses in a row count as two.
\<close>

lemma pulses_examples:
  "pulses [ClockWrite 1, DataRead 0, ClockWrite 1, DataRead 0, ClockWrite 1] = 0"
  "pulses (clock_pulse 0 @ clock_pulse 1) = 2"
  by (simp_all add: pulses_def clock_pulse_def)

lemma clocked_0: "clocked 0 lines = lines"
  by (simp add: clocked_def)

lemma clocked_clocked: "clocked j (clocked k lines) = clocked (k + j) lines"
proof -
  have "[nreads lines ..< nreads lines + k + j] =
      [nreads lines ..< nreads lines + k] @ [nreads lines + k ..< nreads lines + k + j]"
    by (rule upt_add_eq_append) simp
  then show ?thesis by (simp add: clocked_def add.assoc)
qed

subsection \<open>The lines after each function of the read path\<close>

text \<open>
  Every function of the read path changes the lines only, and changes them by whole
  clock pulses: each write of the level 1 to the clock line is followed by one read of
  the data line and one write of the level 0.
\<close>

lemma readBit_lines: "snd (readBit s) = s\<lparr>hw := clocked 1 (hw s)\<rparr>"
  by (simp add: readBit_def lgGpioWrite_def lgGpioRead_def clocked_def clock_pulse_def Let_def)

lemma readByte_loop_lines: "snd (readByte_loop k val s) = s\<lparr>hw := clocked k (hw s)\<rparr>"
proof (induction k arbitrary: val s)
  case 0
  show ?case by (simp add: clocked_0)
next
  case (Suc k)
  have "snd (readByte_loop (Suc k) val s) =
      snd (readByte_loop k
        (if bitFormat s = MSB then push_bit 1 val OR of_bool (fst (readBit s))
         else drop_bit 1 val OR (of_bool (fst (readBit s)) * 0x80))
        (snd (readBit s)))"
    by (simp add: split_beta Let_def)
  also have "\<dots> = (snd (readBit s))\<lparr>hw := clocked k (hw (snd (readBit s)))\<rparr>"
    by (rule Suc.IH)
  also have "\<dots> = s\<lparr>hw := clocked (Suc k) (hw s)\<rparr>"
    by (simp add: readBit_lines clocked_clocked)
  finally show ?case .
qed

lemma readByte_lines: "snd (readByte s) = s\<lparr>hw := clocked 8 (hw s)\<rparr>"
  unfolding readByte_def by (rule readByte_loop_lines)

lemma readBytes_loop_lines:
  "snd (readBytes_loop k s) = s\<lparr>hw := clocked (8 * k) (hw s)\<rparr> \<and>
   length (fst (readBytes_loop k s)) = k"
proof (induction k arbitrary: s)
  case 0
  show ?case by (simp add: clocked_0)
next
  case (Suc k)
  have "readBytes_loop (Suc k) s =
      (fst (readByte s) # fst (readBytes_loop k (snd (readByte s))),
       snd (readBytes_loop k (snd (readByte s))))"
    by (simp add: split_beta Let_def)
  moreover have "snd (readBytes_loop k (snd (readByte s))) =
      s\<lparr>hw := clocked (8 * Suc k) (hw s)\<rparr>"
    using Suc.IH [of "snd (readByte s)"]
    by (simp add: readByte_lines clocked_clocked)
  moreover have "length (fst (readBytes_loop k (snd (readByte s)))) = k"
    using Suc.IH [of "snd (readByte s)"] by simp
  ultimately show ?case by simp
qed

lemma pulse_loop_lines: "pulse_loop k s = s\<lparr>hw := clocked k (hw s)\<rparr>"
proof (induction k arbitrary: s)
  case 0
  show ?case by (simp add: clocked_0)
next
  case (Suc k)
  have "pulse_loop (Suc k) s = (snd (readBit s))\<lparr>hw := clocked k (hw (snd (readBit s)))\<rparr>"
    using Suc.IH [of "snd (readBit s)"] by simp
  also have "\<dots> = s\<lparr>hw := clocked (Suc k) (hw s)\<rparr>"
    by (simp add: readBit_lines clocked_clocked)
  finally show ?case .
qed

lemma readRawBytes_lines:
  "snd (readRawBytes w s) = s\<lparr>hw := clocked (24 + unat (PULSES (gain s) - 24)) (hw s)\<rparr>"
proof -
  let ?s1 = "snd (readBytes_loop BYTES_PER_CONVERSION_PERIOD s)"
  have s1: "?s1 = s\<lparr>hw := clocked 24 (hw s)\<rparr>"
    using readBytes_loop_lines [of BYTES_PER_CONVERSION_PERIOD s]
    by (simp add: BYTES_PER_CONVERSION_PERIOD_def)
  have "snd (readRawBytes w s) = pulse_loop (unat (PULSES (gain ?s1) - 24)) ?s1"
    by (simp add: readRawBytes_def Let_def split_beta BYTES_PER_CONVERSION_PERIOD_def)
  also have "\<dots> = s\<lparr>hw := clocked (24 + unat (PULSES (gain s) - 24)) (hw s)\<rparr>"
    by (simp add: s1 pulse_loop_lines clocked_clocked)
  finally show ?thesis .
qed

lemma readRawBytes_frame:
  "\<exists>h. snd (readRawBytes w s) = s\<lparr>hw := h\<rparr> \<and>
       pulses (trace h) = pulses (trace (hw s)) + 24 + unat (PULSES (gain s) - 24)"
  by (rule exI [of _ "clocked (24 + unat (PULSES (gain s) - 24)) (hw s)"])
    (simp add: readRawBytes_lines pulses_clocked)

lemma readRawBytes_bytes: "\<exists>b0 b1 b2. fst (readRawBytes True s) = Some [b0, b1, b2]"
proof -
  obtain raw s1 where r1: "readBytes_loop BYTES_PER_CONVERSION_PERIOD s = (raw, s1)"
    by (cases "readBytes_loop BYTES_PER_CONVERSION_PERIOD s")
  with readBytes_loop_lines [of BYTES_PER_CONVERSION_PERIOD s]
  have "length raw = 3" by (auto simp: BYTES_PER_CONVERSION_PERIOD_def)
  then obtain b0 b1 b2 where "raw = [b0, b1, b2]"
    by (auto simp: length_Suc_conv numeral_3_eq_3)
  with r1 show ?thesis
    by (simp add: readRawBytes_def Let_def BYTES_PER_CONVERSION_PERIOD_def)
qed

text \<open>
  C7. In every raw read transaction the three data bytes take 24 clock pulses, and the
  trailing pulses bring the total of the transaction to 25 when the current gain is
  128, 25 when it is 32 and 27 when it is 64. Each pulse is completed: what the
  transaction adds to the trace is that many times the clock driven high, the data line
  read, and the clock driven low, and nothing else.
\<close>

theorem readRawBytes_pulse_count:
  "pulses (trace (hw (snd (readBytes_loop BYTES_PER_CONVERSION_PERIOD s)))) =
     pulses (trace (hw s)) + 24 \<and>
   pulses (trace (hw (snd (readRawBytes w s)))) =
     pulses (trace (hw s)) + (case gain s of GAIN_128 \<Rightarrow> 25 | GAIN_32 \<Rightarrow> 25 | GAIN_64 \<Rightarrow> 27) \<and>
   trace (hw (snd (readBytes_loop BYTES_PER_CONVERSION_PERIOD s))) =
     trace (hw s) @
     concat (map (\<lambda>i. [ClockWrite 1, DataRead (dout (hw s) i), ClockWrite 0])
               [nreads (hw s) ..< nreads (hw s) + 24]) \<and>
   trace (hw (snd (readRawBytes w s))) =
     trace (hw s) @
     concat (map (\<lambda>i. [ClockWrite 1, DataRead (dout (hw s) i), ClockWrite 0])
               [nreads (hw s) ..< nreads (hw s) +
                  (case gain s of GAIN_128 \<Rightarrow> 25 | GAIN_32 \<Rightarrow> 25 | GAIN_64 \<Rightarrow> 27)])"
proof -
  have bytes: "hw (snd (readBytes_loop BYTES_PER_CONVERSION_PERIOD s)) = clocked 24 (hw s)"
    using readBytes_loop_lines [of BYTES_PER_CONVERSION_PERIOD s]
    by (simp add: BYTES_PER_CONVERSION_PERIOD_def)
  have "24 + unat (PULSES (gain s) - 24) =
      (case gain s of GAIN_128 \<Rightarrow> 25 | GAIN_32 \<Rightarrow> 25 | GAIN_64 \<Rightarrow> (27::nat))"
    by (cases "gain s") simp_all
  then have whole: "hw (snd (readRawBytes w s)) =
      clocked (case gain s of GAIN_128 \<Rightarrow> 25 | GAIN_32 \<Rightarrow> 25 | GAIN_64 \<Rightarrow> 27) (hw s)"
    by (simp add: readRawBytes_lines)
  have tr: "trace (clocked k lines) =
      trace lines @
      concat (map (\<lambda>i. [ClockWrite 1, DataRead (dout lines i), ClockWrite 0])
                [nreads lines ..< nreads lines + k])" for k lines
    by (simp add: clocked_def clock_pulse_def)
  have "pulses (trace (hw (snd (readBytes_loop BYTES_PER_CONVERSION_PERIOD s)))) =
      pulses (trace (hw s)) + 24"
    by (simp only: bytes pulses_clocked)
  moreover have "pulses (trace (hw (snd (readRawBytes w s)))) =
      pulses (trace (hw s)) + (case gain s of GAIN_128 \<Rightarrow> 25 | GAIN_32 \<Rightarrow> 25 | GAIN_64 \<Rightarrow> 27)"
    by (simp only: whole pulses_clocked)
  ultimately show ?thesis
    by (simp only: bytes whole tr simp_thms)
qed

theorem readRawBytes_pulse_count_witness:
  "pulses (trace (hw (snd (readRawBytes False (HX711_init 5 6 lines_low))))) = 25 \<and>
   trace (hw (snd (readRawBytes False (HX711_init 5 6 lines_low)))) =
     concat (replicate 25 [ClockWrite 1, DataRead 0, ClockWrite 0]) \<and>
   pulses (trace (hw (snd (readRawBytes False
     ((HX711_init 5 6 lines_low)\<lparr>gain := GAIN_64\<rparr>))))) = 27"
proof -
  have init: "hw (HX711_init 5 6 lines_low) = lines_low" "gain (HX711_init 5 6 lines_low) = GAIN_128"
    by (simp_all add: HX711_init_def)
  have low: "trace lines_low = []" "nreads lines_low = 0" "dout lines_low i = 0" for i
    by (simp_all add: lines_low_def)
  have empty: "pulses [] = 0"
    by (simp add: pulses_def)
  note at_128 = readRawBytes_pulse_count [of "HX711_init 5 6 lines_low" False]
  note at_64 = readRawBytes_pulse_count [of "(HX711_init 5 6 lines_low)\<lparr>gain := GAIN_64\<rparr>" False]
  from at_128 [THEN conjunct2, THEN conjunct1]
  have "pulses (trace (hw (snd (readRawBytes False (HX711_init 5 6 lines_low))))) = 25"
    by (simp add: init low empty)
  moreover from at_128 [THEN conjunct2, THEN conjunct2, THEN conjunct2]
  have "trace (hw (snd (readRawBytes False (HX711_init 5 6 lines_low)))) =
      concat (replicate 25 [ClockWrite 1, DataRead 0, ClockWrite 0])"
    by (simp add: init low map_replicate_const)
  moreover from at_64 [THEN conjunct2, THEN conjunct1]
  have "pulses (trace (hw (snd (readRawBytes False
      ((HX711_init 5 6 lines_low)\<lparr>gain := GAIN_64\<rparr>))))) = 27"
    by (simp add: init low empty)
  ultimately show ?thesis by simp
qed

section \<open>Properties of the configuration\<close>

lemma setConfig_valid:
  assumes "valid_pair c g"
  shows "\<exists>h. setConfig c g s = (None, s\<lparr>channel := c, gain := g, hw := h\<rparr>)"
proof -
  let ?t = "s\<lparr>channel := c, gain := g\<rparr>"
  from readRawBytes_frame [of False ?t] obtain h
    where h: "snd (readRawBytes False ?t) = ?t\<lparr>hw := h\<rparr>" by blast
  from assms have "setConfig c g s = (None, snd (readRawBytes False ?t))"
    by (auto simp: setConfig_def setConfig_with_def readRawBytes_call_def valid_pair_def Let_def)
  with h show ?thesis by (intro exI [of _ h]) simp
qed

lemma setConfig_invalid:
  assumes "\<not> valid_pair c g"
  shows "setConfig c g s = (Some invalid_argument, s)"
  using assms by (cases c; cases g) (simp_all add: setConfig_def setConfig_with_def valid_pair_def)

text \<open>
  C3. \<^verbatim>\<open>setConfig\<close> succeeds for exactly the three valid pairings, and the getters
  then return the new pairing; for every other pairing it fails with
  \<open>invalid_argument\<close> and returns the object as it was, lines included, so nothing was
  done on the bus. The pairing of a constructed driver is valid, and \<^verbatim>\<open>setConfig\<close>
  keeps the stored pairing valid whatever its arguments.
\<close>

theorem setConfig_pairs:
  "(valid_pair c g \<longrightarrow>
      fst (setConfig c g s) = None \<and>
      getChannel (snd (setConfig c g s)) = c \<and>
      getGain (snd (setConfig c g s)) = g) \<and>
   (\<not> valid_pair c g \<longrightarrow> setConfig c g s = (Some invalid_argument, s)) \<and>
   valid_pair (channel (HX711_init d k l)) (gain (HX711_init d k l)) \<and>
   (valid_pair (channel s) (gain s) \<longrightarrow>
      valid_pair (channel (snd (setConfig c g s))) (gain (snd (setConfig c g s))))"
proof -
  have ok: "fst (setConfig c g s) = None \<and> channel (snd (setConfig c g s)) = c \<and>
      gain (snd (setConfig c g s)) = g" if "valid_pair c g"
    using setConfig_valid [OF that, of s] by auto
  have init: "valid_pair (channel (HX711_init d k l)) (gain (HX711_init d k l))"
    by (simp add: HX711_init_def valid_pair_def)
  have keep: "valid_pair (channel (snd (setConfig c g s))) (gain (snd (setConfig c g s)))"
    if "valid_pair (channel s) (gain s)"
  proof (cases "valid_pair c g")
    case True
    with ok show ?thesis by simp
  next
    case False
    with that show ?thesis by (simp add: setConfig_invalid)
  qed
  from ok init keep show ?thesis
    by (simp add: setConfig_invalid getChannel_def getGain_def)
qed

theorem setConfig_pairs_witness:
  "valid_pair B GAIN_32 \<and>
   fst (setConfig B GAIN_32 (HX711_init 5 6 lines_low)) = None \<and>
   getChannel (snd (setConfig B GAIN_32 (HX711_init 5 6 lines_low))) = B \<and>
   getGain (snd (setConfig B GAIN_32 (HX711_init 5 6 lines_low))) = GAIN_32 \<and>
   \<not> valid_pair A GAIN_32 \<and>
   setConfig A GAIN_32 (HX711_init 5 6 lines_low) = (Some invalid_argument, HX711_init 5 6 lines_low) \<and>
   valid_pair (channel (HX711_init 5 6 lines_low)) (gain (HX711_init 5 6 lines_low)) \<and>
   valid_pair (channel (snd (setConfig B GAIN_32 (HX711_init 5 6 lines_low))))
     (gain (snd (setConfig B GAIN_32 (HX711_init 5 6 lines_low))))"
  using setConfig_pairs [of B GAIN_32 "HX711_init 5 6 lines_low" 5 6 lines_low]
    setConfig_pairs [of A GAIN_32 "HX711_init 5 6 lines_low" 5 6 lines_low]
  by (simp add: valid_pair_def getChannel_def getGain_def)

text \<open>
  C2. For a valid pairing, when the transaction that propagates it to the chip leaves
  with a \<^verbatim>\<open>TimeoutException\<close>, \<^verbatim>\<open>setConfig\<close> leaves with the same exception and the
  channel and gain the getters return are those of before the call.
\<close>

theorem setConfig_timeout_rollback:
  assumes "valid_pair c g"
    and "fst (transaction (s\<lparr>channel := c, gain := g\<rparr>)) = Some TimeoutException"
  shows "fst (setConfig_with transaction c g s) = Some TimeoutException \<and>
         getChannel (snd (setConfig_with transaction c g s)) = getChannel s \<and>
         getGain (snd (setConfig_with transaction c g s)) = getGain s"
proof -
  obtain r s' where t: "transaction (s\<lparr>channel := c, gain := g\<rparr>) = (r, s')"
    by (cases "transaction (s\<lparr>channel := c, gain := g\<rparr>)")
  with assms(2) have "r = Some TimeoutException" by simp
  with assms(1) t show ?thesis
    by (auto simp: setConfig_with_def valid_pair_def getChannel_def getGain_def)
qed

theorem setConfig_timeout_rollback_witness:
  "valid_pair B GAIN_32 \<and>
   fst ((\<lambda>t. (Some TimeoutException, t)) ((HX711_init 5 6 lines_low)\<lparr>channel := B, gain := GAIN_32\<rparr>))
     = Some TimeoutException \<and>
   fst (setConfig_with (\<lambda>t. (Some TimeoutException, t)) B GAIN_32 (HX711_init 5 6 lines_low))
     = Some TimeoutException \<and>
   getChannel (snd (setConfig_with (\<lambda>t. (Some TimeoutException, t)) B GAIN_32 (HX711_init 5 6 lines_low))) = A \<and>
   getGain (snd (setConfig_with (\<lambda>t. (Some TimeoutException, t)) B GAIN_32 (HX711_init 5 6 lines_low))) = GAIN_128"
  using setConfig_timeout_rollback [of B GAIN_32 "\<lambda>t. (Some TimeoutException, t)" "HX711_init 5 6 lines_low"]
  by (simp add: valid_pair_def getChannel_def getGain_def HX711_init_def)

section \<open>Properties of the watcher and of the bounded-wait read\<close>

lemma isReady_frame: "\<exists>h. snd (isReady s) = s\<lparr>hw := h\<rparr>"
  by (rule exI [of _ "hw (snd (isReady s))"]) (simp add: isReady_def lgGpioRead_def Let_def)

lemma readInt_frame: "\<exists>h. snd (readInt s) = s\<lparr>hw := h\<rparr>"
proof -
  from readRawBytes_frame [of True s] obtain h
    where h: "snd (readRawBytes True s) = s\<lparr>hw := h\<rparr>" by blast
  from readRawBytes_bytes [of s] obtain b0 b1 b2
    where b: "fst (readRawBytes True s) = Some [b0, b1, b2]" by blast
  from h b have "readRawBytes True s = (Some [b0, b1, b2], s\<lparr>hw := h\<rparr>)"
    by (simp add: prod_eq_iff)
  then show ?thesis by (intro exI [of _ h]) (simp add: readInt_def Let_def)
qed

lemma watchPin_iter_step:
  assumes "watchPin_iter s = Some s'"
  shows "(lastVal s' = lastVal s \<and> published s' = published s) \<or>
         (\<not> isSaturated (lastVal s') \<and> published s' = published s @ [lastVal s'])"
proof -
  obtain rdy s1 where r: "isReady s = (rdy, s1)" by (cases "isReady s")
  with isReady_frame [of s] obtain h1 where h1: "s1 = s\<lparr>hw := h1\<rparr>" by auto
  obtain v s2 where i: "readInt s1 = (v, s2)" by (cases "readInt s1")
  with readInt_frame [of s1] obtain h2 where h2: "s2 = s1\<lparr>hw := h2\<rparr>" by auto
  from assms r i h1 h2 show ?thesis
    by (auto simp: watchPin_iter_def split: if_splits)
qed

lemma watchPin_run:
  "\<exists>vs. published (watchPin n s) = published s @ vs \<and>
        (\<forall>v\<in>set vs. \<not> isSaturated v) \<and>
        lastVal (watchPin n s) = last (lastVal s # vs)"
proof (induction n arbitrary: s)
  case 0
  show ?case by (rule exI [of _ "[]"]) simp
next
  case (Suc n)
  show ?case
  proof (cases "watchPin_iter s")
    case None
    then show ?thesis by (intro exI [of _ "[]"]) simp
  next
    case (Some s')
    from Suc.IH [of s'] obtain vs where vs:
      "published (watchPin n s') = published s' @ vs"
      "\<forall>v\<in>set vs. \<not> isSaturated v"
      "lastVal (watchPin n s') = last (lastVal s' # vs)"
      by blast
    from watchPin_iter_step [OF Some] show ?thesis
    proof
      assume "lastVal s' = lastVal s \<and> published s' = published s"
      with Some vs show ?thesis by (intro exI [of _ vs]) simp
    next
      assume "\<not> isSaturated (lastVal s') \<and> published s' = published s @ [lastVal s']"
      with Some vs show ?thesis by (intro exI [of _ "lastVal s' # vs"]) simp
    qed
  qed
qed


subsection \<open>Two concrete runs of the watcher\<close>

text \<open>
  On the line that stays low the first iteration reads the sample 0 and publishes it;
  on the line of the sample \<open>0x7FFFFF\<close> it reads a saturated value and publishes
  nothing. The loops on numerals are unrolled by the equations below.
\<close>

lemma isReady_fields:
  "lastVal (snd (isReady s)) = lastVal s" "published (snd (isReady s)) = published s"
  "watchState (snd (isReady s)) = watchState s"
  using isReady_frame [of s] by auto

lemma readInt_fields:
  "lastVal (snd (readInt s)) = lastVal s" "published (snd (readInt s)) = published s"
  "watchState (snd (readInt s)) = watchState s"
  using readInt_frame [of s] by auto

lemma watchPin_iter_unfold:
  "watchPin_iter s =
     (if watchState s = END then None
      else if watchState s = PAUSE then Some s
      else if \<not> fst (isReady s) then Some (snd (isReady s))
      else if isSaturated (fst (readInt (snd (isReady s))))
      then Some (snd (readInt (snd (isReady s))))
      else Some ((snd (readInt (snd (isReady s))))
             \<lparr>lastVal := fst (readInt (snd (isReady s))),
              published := published (snd (readInt (snd (isReady s)))) @
                 [fst (readInt (snd (isReady s)))]\<rparr>))"
  by (simp add: watchPin_iter_def split_beta Let_def)

lemma readByte_loop_numeral:
  "readByte_loop (numeral k) val s = readByte_loop (pred_numeral k)
     (if bitFormat s = MSB then push_bit 1 val OR of_bool (fst (readBit s))
      else drop_bit 1 val OR (of_bool (fst (readBit s)) * 0x80)) (snd (readBit s))"
  "readByte_loop 1 val s = readByte_loop 0
     (if bitFormat s = MSB then push_bit 1 val OR of_bool (fst (readBit s))
      else drop_bit 1 val OR (of_bool (fst (readBit s)) * 0x80)) (snd (readBit s))"
  by (simp_all add: numeral_eq_Suc split_beta Let_def)

lemma readBytes_loop_numeral:
  "readBytes_loop (numeral k) s =
     (fst (readByte s) # fst (readBytes_loop (pred_numeral k) (snd (readByte s))),
      snd (readBytes_loop (pred_numeral k) (snd (readByte s))))"
  "readBytes_loop 1 s =
     (fst (readByte s) # fst (readBytes_loop 0 (snd (readByte s))),
      snd (readBytes_loop 0 (snd (readByte s))))"
  by (simp_all add: numeral_eq_Suc split_beta Let_def)

lemma pulse_loop_numeral:
  "pulse_loop (numeral k) s = pulse_loop (pred_numeral k) (snd (readBit s))"
  "pulse_loop 1 s = pulse_loop 0 (snd (readBit s))"
  by (simp_all add: numeral_eq_Suc)

lemmas run_defs = HX711_init_def lgGpioRead_def lgGpioWrite_def readBit_def readByte_def
  isReady_def readInt_def readRawBytes_def BYTES_PER_CONVERSION_PERIOD_def
  convertFromTwosComplement_def
  readByte_loop_numeral readBytes_loop_numeral pulse_loop_numeral


lemma sample_max:
  "fst (isReady (HX711_init 5 6 lines_max))"
  "fst (readInt (snd (isReady (HX711_init 5 6 lines_max)))) = HX_MAX_VALUE"
  by (simp_all add: run_defs lines_max_def HX_MAX_VALUE_def)

lemma init_fields:
  "watchState (HX711_init d c l) = NONE" "published (HX711_init d c l) = []"
  "lastVal (HX711_init d c l) = HX_MAX_VALUE"
  by (simp_all add: HX711_init_def)



lemma watchPin_iter_max:
  "watchPin_iter (HX711_init 5 6 lines_max) =
     Some (snd (readInt (snd (isReady (HX711_init 5 6 lines_max)))))"
  by (simp add: watchPin_iter_unfold sample_max init_fields isSaturated_def)


lemma watchPin_1_max:
  "watchPin 1 (HX711_init 5 6 lines_max) =
     snd (readInt (snd (isReady (HX711_init 5 6 lines_max))))"
proof -
  have "watchPin 1 (HX711_init 5 6 lines_max) = watchPin (Suc 0) (HX711_init 5 6 lines_max)"
    by simp
  then show ?thesis by (simp only: watchPin.simps watchPin_iter_max option.case)
qed

text \<open>
  C9. The constructor stores \<^verbatim>\<open>HX_MAX_VALUE\<close> as the latest value, and that value
  satisfies the saturation predicate; a \<^verbatim>\<open>getValue\<close> whose wait ends without a timeout
  returns it when called on the constructed driver, and also after any number of watcher
  iterations as long as the watcher has published nothing.
\<close>

theorem getValue_before_first_publication:
  "lastVal (HX711_init d c l) = HX_MAX_VALUE \<and>
   isSaturated (lastVal (HX711_init d c l)) \<and>
   getValue no_timeout (HX711_init d c l) = Inr HX_MAX_VALUE \<and>
   (published (watchPin n (HX711_init d c l)) = [] \<longrightarrow>
      getValue no_timeout (watchPin n (HX711_init d c l)) = Inr HX_MAX_VALUE)"
proof -
  from watchPin_run [of n "HX711_init d c l"] obtain vs where
    "published (watchPin n (HX711_init d c l)) = published (HX711_init d c l) @ vs"
    "lastVal (watchPin n (HX711_init d c l)) = last (lastVal (HX711_init d c l) # vs)"
    by blast
  then have "lastVal (watchPin n (HX711_init d c l)) = HX_MAX_VALUE"
    if "published (watchPin n (HX711_init d c l)) = []"
    using that by (simp add: init_fields)
  then show ?thesis
    by (simp add: init_fields getValue_def isSaturated_def)
qed

theorem getValue_before_first_publication_witness:
  "published (watchPin 1 (HX711_init 5 6 lines_max)) = [] \<and>
   pulses (trace (hw (watchPin 1 (HX711_init 5 6 lines_max)))) = 25 \<and>
   getValue no_timeout (watchPin 1 (HX711_init 5 6 lines_max)) = Inr HX_MAX_VALUE \<and>
   isSaturated HX_MAX_VALUE"
proof -
  have p: "published (watchPin 1 (HX711_init 5 6 lines_max)) = []"
    by (simp only: watchPin_1_max readInt_fields isReady_fields init_fields)
  have "pulses (trace (hw (snd (readInt (snd (isReady (HX711_init 5 6 lines_max))))))) = 25"
    by (simp add: run_defs lines_max_def pulses_def)
  then have q: "pulses (trace (hw (watchPin 1 (HX711_init 5 6 lines_max)))) = 25"
    by (simp only: watchPin_1_max)
  from p q getValue_before_first_publication [of 5 6 lines_max 1] show ?thesis
    by (simp add: isSaturated_def)
qed

section \<open>Properties of the scale\<close>

lemma getValues_frame:
  "\<exists>k. snd (getValues n s) = s\<lparr>drawn := k\<rparr>"
proof (induction n arbitrary: s)
  case 0
  show ?case by (rule exI [of _ "drawn s"]) simp
next
  case (Suc n)
  show ?case
  proof (cases "feed s (drawn s)")
    case None
    then show ?thesis by (intro exI [of _ "Suc (drawn s)"]) simp
  next
    case (Some v)
    let ?t = "s\<lparr>drawn := Suc (drawn s)\<rparr>"
    from Suc.IH [of ?t] obtain k where k: "snd (getValues n ?t) = ?t\<lparr>drawn := k\<rparr>" by blast
    obtain r u where g: "getValues n ?t = (r, u)" by (cases "getValues n ?t")
    with k Some show ?thesis by (intro exI [of _ k]) (cases r; simp)
  qed
qed

lemma getValues_ok:
  "fst (getValues n s) = Inr vals \<Longrightarrow>
     snd (getValues n s) = s\<lparr>drawn := drawn s + n\<rparr> \<and> length vals = n"
proof (induction n arbitrary: s vals)
  case 0
  then show ?case by simp
next
  case (Suc n)
  let ?t = "s\<lparr>drawn := Suc (drawn s)\<rparr>"
  obtain r u where g: "getValues n ?t = (r, u)" by (cases "getValues n ?t")
  from Suc.prems obtain v where v: "feed s (drawn s) = Some v"
    by (cases "feed s (drawn s)") auto
  with Suc.prems g obtain vs where vs: "r = Inr vs" "vals = v # vs"
    by (cases r) auto
  with g have "fst (getValues n ?t) = Inr vs" by simp
  from Suc.IH [OF this] g have "u = ?t\<lparr>drawn := drawn ?t + n\<rparr>" "length vs = n" by auto
  with v g vs show ?case by simp
qed

lemma getValues_refUnit:
  "getValues n (s\<lparr>refUnit := r\<rparr>) =
     (fst (getValues n s), (snd (getValues n s))\<lparr>refUnit := r\<rparr>)"
proof (induction n arbitrary: s)
  case 0
  show ?case by simp
next
  case (Suc n)
  show ?case
  proof (cases "feed s (drawn s)")
    case None
    then show ?thesis by simp
  next
    case (Some v)
    let ?t = "s\<lparr>drawn := Suc (drawn s)\<rparr>"
    let ?t' = "(s\<lparr>refUnit := r\<rparr>)\<lparr>drawn := Suc (drawn (s\<lparr>refUnit := r\<rparr>))\<rparr>"
    obtain x u where g: "getValues n ?t = (x, u)" by (cases "getValues n ?t")
    have "?t' = ?t\<lparr>refUnit := r\<rparr>" by simp
    with Suc.IH [of ?t] g have g': "getValues n ?t' = (x, u\<lparr>refUnit := r\<rparr>)"
      by (simp only: fst_conv snd_conv)
    have "getValues (Suc n) (s\<lparr>refUnit := r\<rparr>) =
        (case getValues n ?t' of
           (Inl e, s') \<Rightarrow> (Inl e, s')
         | (Inr vs, s') \<Rightarrow> (Inr (v # vs), s'))"
      using Some by (simp only: getValues.simps) simp
    also have "\<dots> = (fst (getValues (Suc n) s), (snd (getValues (Suc n) s))\<lparr>refUnit := r\<rparr>)"
      unfolding g' using Some g by (cases x) simp_all
    finally show ?thesis .
  qed
qed

text \<open>
  C4. For every scale and every sample count of at least 1, \<^verbatim>\<open>read\<close> with an unknown
  aggregation kind first draws the samples from the raw-value source; when the source
  delivers them it fails with \<open>invalid_argument\<close> and leaves mass unit, reference unit
  and offset as they were. \<^verbatim>\<open>zero\<close> with an unknown kind fails with
  \<open>invalid_argument\<close> after the same samples are drawn, and leaves mass unit and
  offset as they were.
\<close>

theorem unknown_read_type:
  assumes "1 \<le> n" and "fst (getValues n s) = Inr vals"
  shows "read NDEBUG ReadType_unknown n s = (Inl invalid_argument, s\<lparr>drawn := drawn s + n\<rparr>) \<and>
         fst (zero NDEBUG ReadType_unknown n s) = Some invalid_argument \<and>
         massUnit (snd (zero NDEBUG ReadType_unknown n s)) = massUnit s \<and>
         offset (snd (zero NDEBUG ReadType_unknown n s)) = offset s \<and>
         drawn (snd (zero NDEBUG ReadType_unknown n s)) = drawn s + n"
proof -
  from getValues_ok [OF assms(2)] assms(2)
  have g: "getValues n s = (Inr vals, s\<lparr>drawn := drawn s + n\<rparr>)"
    by (simp add: prod_eq_iff)
  with assms(1) have r: "read NDEBUG ReadType_unknown n s =
      (Inl invalid_argument, s\<lparr>drawn := drawn s + n\<rparr>)"
    by (simp add: read_def)
  from g have "getValues n (s\<lparr>refUnit := 1\<rparr>) = (Inr vals, s\<lparr>drawn := drawn s + n, refUnit := 1\<rparr>)"
    by (simp add: getValues_refUnit)
  with assms(1) have "read NDEBUG ReadType_unknown n (s\<lparr>refUnit := 1\<rparr>) =
      (Inl invalid_argument, s\<lparr>drawn := drawn s + n, refUnit := 1\<rparr>)"
    by (simp add: read_def)
  with assms(1) have "zero NDEBUG ReadType_unknown n s =
      (Some invalid_argument, s\<lparr>drawn := drawn s + n, refUnit := 1\<rparr>)"
    by (simp add: zero_def setReferenceUnit_def)
  with r show ?thesis by simp
qed

theorem unknown_read_type_witness:
  "(1::nat) \<le> 1 \<and> fst (getValues 1 scale_1500) = Inr [1500] \<and>
   read False ReadType_unknown 1 scale_1500 = (Inl invalid_argument, scale_1500\<lparr>drawn := drawn scale_1500 + 1\<rparr>) \<and>
   fst (zero False ReadType_unknown 1 scale_1500) = Some invalid_argument \<and>
   offset (snd (zero False ReadType_unknown 1 scale_1500)) = 500"
  using unknown_read_type [of 1 scale_1500 "[1500]" False]
  by (simp add: scale_1500_def AbstractScale_init_def)

theorem unknown_read_type_counterexample:
  "drawn scale_1500 = 0 \<and>
   drawn (snd (read False ReadType_unknown 1 scale_1500)) = 1 \<and>
   refUnit scale_1500 = 100 \<and>
   refUnit (snd (zero False ReadType_unknown 1 scale_1500)) = 1 \<and>
   fst (read False ReadType_unknown 1 scale_timeout) = Inl TimeoutException"
  by (simp add: scale_1500_def scale_timeout_def AbstractScale_init_def read_def zero_def
      setReferenceUnit_def)

text \<open>
  C1. \<^verbatim>\<open>zero\<close> sets the reference unit to 1 before it reads and restores the saved
  value only after the read has returned. On the scale whose source times out, with
  reference unit 100, \<^verbatim>\<open>zero\<close> leaves with the \<^verbatim>\<open>TimeoutException\<close> of the read
  and the reference unit is then 1.
\<close>

theorem zero_timeout_reference_unit:
  "refUnit scale_timeout = 100 \<and>
   fst (zero False Average 1 scale_timeout) = Some TimeoutException \<and>
   refUnit (snd (zero False Average 1 scale_timeout)) = 1"
  by (simp add: scale_timeout_def AbstractScale_init_def read_def zero_def setReferenceUnit_def)

text \<open>
  A scale constructed with reference unit 0 is the other way out of \<^verbatim>\<open>zero\<close> with
  the reference unit at 1: the restoring call of \<^verbatim>\<open>setReferenceUnit\<close> rejects the saved
  value, after the offset has been replaced.
\<close>

lemma zero_reference_unit_0:
  "fst (zero False Average 1 (AbstractScale_init () 0 500 (\<lambda>k. Some 1500))) = Some invalid_argument \<and>
   refUnit (snd (zero False Average 1 (AbstractScale_init () 0 500 (\<lambda>k. Some 1500)))) = 1 \<and>
   offset (snd (zero False Average 1 (AbstractScale_init () 0 500 (\<lambda>k. Some 1500)))) = 1000"
  by (simp add: AbstractScale_init_def read_def zero_def setReferenceUnit_def normalise_def
     average_def std_round_def)

text \<open>
  When \<^verbatim>\<open>zero\<close> returns normally, the source has delivered the samples, the reference
  unit is the one of before the call, and the new offset is the rounded difference of
  the aggregate and the old offset.
\<close>

lemma zero_normal_return:
  assumes "zero NDEBUG rt n s = (None, s')"
  shows "\<exists>vals. fst (getValues n s) = Inr vals \<and> rt \<noteq> ReadType_unknown \<and>
           refUnit s' = refUnit s \<and>
           offset s' = std_round ((if rt = Median then median vals else average vals)
                                    - of_int (offset s))"
proof -
  from assms have n: "n \<noteq> 0" by (auto simp: zero_def split: if_splits)
  let ?s1 = "s\<lparr>refUnit := 1\<rparr>"
  obtain r u where g: "getValues n s = (r, u)" by (cases "getValues n s")
  then have g1: "getValues n ?s1 = (r, u\<lparr>refUnit := 1\<rparr>)" by (simp add: getValues_refUnit)
  from getValues_frame [of n s] g obtain k where u: "u = s\<lparr>drawn := k\<rparr>" by auto
  from assms n g1 obtain vals where r: "r = Inr vals"
    by (cases r) (auto simp: zero_def setReferenceUnit_def read_def)
  from assms n g1 r u have rt: "rt \<noteq> ReadType_unknown"
    by (auto simp: zero_def setReferenceUnit_def read_def)
  from assms n g1 r u rt have "refUnit s' = refUnit s \<and>
     offset s' = std_round ((if rt = Median then median vals else average vals) - of_int (offset s))"
    by (cases rt)
      (auto simp: zero_def setReferenceUnit_def read_def normalise_def Let_def split: if_splits)
  with g r rt show ?thesis by simp
qed

text \<open>
  C10. The constructor stores whatever reference unit it is given, 0 included, and
  cannot fail; \<^verbatim>\<open>setReferenceUnit\<close> rejects 0 with \<open>invalid_argument\<close> and changes
  nothing. On a scale constructed with reference unit 0, \<^verbatim>\<open>normalise\<close> stops at its
  assertion in a build that keeps assertions, and divides by zero in a build that drops
  them; it raises no exception in either.
\<close>

theorem reference_unit_zero_accepted:
  "refUnit (AbstractScale_init m r off src) = r \<and>
   getReferenceUnit (AbstractScale_init m 0 off src) = 0 \<and>
   setReferenceUnit 0 s = (Some invalid_argument, s) \<and>
   refUnit (snd (setReferenceUnit r s)) = (if r = 0 then refUnit s else r) \<and>
   normalise False (AbstractScale_init m 0 off src) v = Inl assertion_failure \<and>
   normalise True (AbstractScale_init m 0 off src) v = Inr Inf_or_NaN"
  by (simp add: AbstractScale_init_def getReferenceUnit_def setReferenceUnit_def normalise_def)

end
